theory Spec2Isabelle
  imports Complex_Main "HOL-Library.Word" "HOL-Library.Log_Nat"
begin

section \<open>The icon atlas of \<open>src/textures/icons.c\<close>\<close>

text \<open>
  The program shows one icon of a square icon sheet. Two unsigned 32-bit numbers, the
  global \<open>GLuint icon_id[2]\<close>, hold the chosen icon and the number of icons per side
  of the sheet. \<open>display\<close> hands both to the vertex shader as the uniform
  \<open>uvec2 icon_id\<close>; the shader turns them into texture coordinates; \<open>key_cb\<close>
  changes the chosen icon.

  Numbers. \<open>GLuint\<close> and GLSL's \<open>uint\<close> are \<open>32 word\<close>: subtraction wraps and
  division truncates. GLSL's \<open>float\<close> is the IEEE 754 binary32 format: a float is a
  real number with 24 significant bits, and every conversion, division, product, sum
  and difference of the shader is rounded to the nearest float, ties to even.
\<close>

type_synonym u32 = "32 word"
type_synonym uvec2 = "u32 \<times> u32"
type_synonym vec2 = "real \<times> real"

subsection \<open>Rounding to binary32\<close>

text \<open>Rounding to the nearest integer, a tie to the even one.\<close>

definition rne :: "real \<Rightarrow> int" where
  "rne x =
     (let f = \<lfloor>x\<rfloor>; d = x - of_int f
      in if d < 1 / 2 then f
         else if 1 / 2 < d then f + 1
         else if even f then f else f + 1)"

text \<open>
  The binary exponent of a non-zero real: \<open>2 ^ expo x \<le> \<bar>x\<bar> < 2 ^ (expo x + 1)\<close>,
  computed from the number of bits of an integer.
\<close>

definition expo :: "real \<Rightarrow> int" where
  "expo x = (if 1 \<le> \<bar>x\<bar> then bitlen \<lfloor>\<bar>x\<bar>\<rfloor> - 1 else - bitlen (\<lceil>1 / \<bar>x\<bar>\<rceil> - 1))"

text \<open>
  The nearest float: 24 significant bits, so floats between \<open>2 ^ e\<close> and
  \<open>2 ^ (e + 1)\<close> are \<open>2 ^ (e - 23)\<close> apart; below \<open>2 ^ (- 126)\<close> the spacing stays
  \<open>2 ^ (- 149)\<close>. No value of the shader is as large as \<open>2 ^ 34\<close> (its inputs are below
  \<open>2 ^ 32\<close>), far from the overflow threshold \<open>2 ^ 128\<close>, so infinities are left out.
\<close>

definition rnd :: "real \<Rightarrow> real" where
  "rnd x =
     (if x = 0 then 0
      else
        let e = max (expo x) (- 126);
            ulp = 2 powi (e - 23)
        in of_int (rne (x / ulp)) * ulp)"

definition fadd :: "real \<Rightarrow> real \<Rightarrow> real" where
  "fadd a b = rnd (a + b)"

definition fsub :: "real \<Rightarrow> real \<Rightarrow> real" where
  "fsub a b = rnd (a - b)"

definition fmul :: "real \<Rightarrow> real \<Rightarrow> real" where
  "fmul a b = rnd (a * b)"

definition fdiv :: "real \<Rightarrow> real \<Rightarrow> real" where
  "fdiv a b = rnd (a / b)"

subsection \<open>GLSL built-ins used by the shader\<close>

text \<open>
  \<open>float(u)\<close> of an unsigned integer, also the implicit conversion of a \<open>uint\<close>
  operand of \<open>mod\<close> and of \<open>uint * float\<close>: the nearest float.
\<close>

definition float :: "u32 \<Rightarrow> real" where
  "float u = rnd (of_nat (unat u))"

text \<open>\<open>floor(x)\<close>: the floor of a float is a float, nothing is rounded.\<close>

definition glsl_floor :: "real \<Rightarrow> real" where
  "glsl_floor x = of_int \<lfloor>x\<rfloor>"

text \<open>
  \<open>mod(x, y)\<close> on floats: GLSL defines it as \<open>x - y * floor(x / y)\<close>; the quotient,
  the product and the difference are float operations.
\<close>

definition glsl_mod :: "real \<Rightarrow> real \<Rightarrow> real" where
  "glsl_mod x y = fsub x (fmul y (glsl_floor (fdiv x y)))"

subsection \<open>The vertex shader (icons.c, lines 152 to 167)\<close>

text \<open>
  \<^verbatim>\<open>
  uniform uvec2 icon_id;
  in vec2 v_tex;
  out vec2 vs_tex_coord;
  void main(void) {
    float square_side = float(1)/float(icon_id.y);
    vs_tex_coord = vec2(
      mod(icon_id.x, icon_id.y) * square_side + v_tex.x * square_side,
      (icon_id.y-uint(1) - icon_id.x/icon_id.y) * square_side + v_tex.y * square_side);
  }
  \<close>
  \<open>icon_id.y-uint(1) - icon_id.x/icon_id.y\<close> is computed in \<open>uint\<close> and converted to
  \<open>float\<close> for the product. The shader has no error result. With \<open>icon_id.y = 0\<close> it
  divides by zero in \<open>uint\<close>, and GLSL leaves the value of such a division undefined;
  the model returns \<open>None\<close> there and nowhere else, so that no statement rests on
  HOL's \<open>x div 0 = 0\<close>.
\<close>

definition vs_tex_coord :: "uvec2 \<Rightarrow> vec2 \<Rightarrow> vec2 option" where
  "vs_tex_coord icon_id v_tex =
     (if snd icon_id = 0 then None
      else
        let square_side = fdiv 1 (float (snd icon_id))
        in Some
          (fadd (fmul (glsl_mod (float (fst icon_id)) (float (snd icon_id))) square_side)
                (fmul (fst v_tex) square_side),
           fadd (fmul (float (snd icon_id - 1 - fst icon_id div snd icon_id)) square_side)
                (fmul (snd v_tex) square_side)))"

subsection \<open>Program state, \<open>display\<close> and \<open>key_cb\<close>\<close>

text \<open>
  Of the globals only \<open>icon_id\<close> and the window's should-close flag are touched by the
  code modelled here. \<open>icon_id[0]\<close> is \<open>fst\<close>, \<open>icon_id[1]\<close> is \<open>snd\<close>.
\<close>

record icons_state =
  icon_id :: uvec2
  window_should_close :: bool

text \<open>Line 45: \<open>GLuint icon_id[2] = {0, 4};\<close> and a window that is open.\<close>

definition initial_state :: icons_state where
  "initial_state = \<lparr>icon_id = (0, 4), window_should_close = False\<rparr>"

text \<open>
  The texture coordinates in \<open>quad_data\<close> (lines 217 to 220), one per vertex of the
  triangle fan.
\<close>

definition quad_tex :: "vec2 list" where
  "quad_tex = [(0, 1), (1, 1), (1, 0), (0, 0)]"

text \<open>
  \<open>display\<close> sends \<open>icon_id\<close> as it is to the shader (\<open>glUniform2uiv\<close>, line 98) and
  draws the four vertices; what it shows is decided by the texture coordinate the
  shader gives each vertex.
\<close>

definition display :: "icons_state \<Rightarrow> vec2 option list" where
  "display st = map (vs_tex_coord (icon_id st)) quad_tex"

text \<open>
  The values of \<open>GLFW_KEY_ESCAPE\<close>, \<open>GLFW_KEY_RIGHT\<close>, \<open>GLFW_KEY_LEFT\<close> and
  \<open>GLFW_PRESS\<close> come from GLFW's header, which is not part of the repository, so the
  callback takes them as a parameter. \<open>glfw3\<close> holds the values of GLFW 3.
\<close>

record glfw_consts =
  GLFW_KEY_ESCAPE :: int
  GLFW_KEY_RIGHT :: int
  GLFW_KEY_LEFT :: int
  GLFW_PRESS :: int

definition glfw3 :: glfw_consts where
  "glfw3 = \<lparr>GLFW_KEY_ESCAPE = 256, GLFW_KEY_RIGHT = 262, GLFW_KEY_LEFT = 263,
            GLFW_PRESS = 1\<rparr>"

text \<open>
  \<^verbatim>\<open>
  static void key_cb(GLFWwindow* window, int key, int scancode, int action, int mods)
  {
    if(key == GLFW_KEY_ESCAPE && action == GLFW_PRESS) {
      glfwSetWindowShouldClose(window, GL_TRUE);
    }
    if(key >= '0' && key <= '9' && action == GLFW_PRESS) {
      icon_id[0] = key-'0';
    }
    else if(key == GLFW_KEY_RIGHT && action == GLFW_PRESS) {
      icon_id[0]++;
    }
    else if(key == GLFW_KEY_LEFT && action == GLFW_PRESS) {
      icon_id[0]--;
    }
  }
  \<close>
  \<open>'0'\<close> is 48 and \<open>'9'\<close> is 57. The \<open>int\<close> arguments are only compared, and
  \<open>key - '0'\<close> is computed between 0 and 9 only, so they are modelled by \<open>int\<close>.
\<close>

definition key_cb ::
  "glfw_consts \<Rightarrow> int \<Rightarrow> int \<Rightarrow> int \<Rightarrow> int \<Rightarrow> icons_state \<Rightarrow> icons_state" where
  "key_cb c key scancode action mods st =
     (let st1 = (if key = GLFW_KEY_ESCAPE c \<and> action = GLFW_PRESS c
                 then st\<lparr>window_should_close := True\<rparr> else st)
      in if key \<ge> 48 \<and> key \<le> 57 \<and> action = GLFW_PRESS c
         then st1\<lparr>icon_id := (word_of_int (key - 48), snd (icon_id st1))\<rparr>
         else if key = GLFW_KEY_RIGHT c \<and> action = GLFW_PRESS c
         then st1\<lparr>icon_id := (fst (icon_id st1) + 1, snd (icon_id st1))\<rparr>
         else if key = GLFW_KEY_LEFT c \<and> action = GLFW_PRESS c
         then st1\<lparr>icon_id := (fst (icon_id st1) - 1, snd (icon_id st1))\<rparr>
         else st1)"

text \<open>
  The main loop polls events between two frames; each key event runs \<open>key_cb\<close>. A key
  event is \<open>(key, scancode, action, mods)\<close>.
\<close>

type_synonym key_event = "int \<times> int \<times> int \<times> int"

fun poll_events :: "glfw_consts \<Rightarrow> key_event list \<Rightarrow> icons_state \<Rightarrow> icons_state" where
  "poll_events c [] st = st"
| "poll_events c ((key, scancode, action, mods) # evs) st =
     poll_events c evs (key_cb c key scancode action mods st)"

subsection \<open>The rectangle of an icon\<close>

record UVRect =
  uMin :: real
  vMin :: real
  uMax :: real
  vMax :: real

text \<open>
  What the specification calls \<open>rectForIndex(layout, index)\<close> is, in the code, the pair
  of texture coordinates the shader computes for the corners \<open>v_tex = (0, 0)\<close> and
  \<open>v_tex = (1, 1)\<close> of the quad, with \<open>icon_id = (index, sideCount)\<close>.
\<close>

definition rectForIndex :: "u32 \<Rightarrow> u32 \<Rightarrow> UVRect option" where
  "rectForIndex sideCount index =
     (case (vs_tex_coord (index, sideCount) (0, 0), vs_tex_coord (index, sideCount) (1, 1)) of
        (Some (u0, v0), Some (u1, v1)) \<Rightarrow>
          Some \<lparr>uMin = u0, vMin = v0, uMax = u1, vMax = v1\<rparr>
      | _ \<Rightarrow> None)"

subsection \<open>The specification's operations, in its own words\<close>

datatype atlas_error = OutOfRange | InvalidLayout

text \<open>
  Section 4.1 of the specification, on integers: \<open>s = 1 / sideCount\<close>,
  \<open>col = index mod sideCount\<close>, \<open>row = index div sideCount\<close>,
  \<open>invRow = sideCount - 1 - row\<close>, and OutOfRange for an index outside
  \<open>[0, sideCount\<^sup>2)\<close>.
\<close>

definition rectForIndex_spec :: "int \<Rightarrow> int \<Rightarrow> atlas_error + UVRect" where
  "rectForIndex_spec sideCount index =
     (if index < 0 \<or> index \<ge> sideCount ^ 2 then Inl OutOfRange
      else
        let s = 1 / of_int sideCount;
            col = index mod sideCount;
            row = index div sideCount;
            invRow = sideCount - 1 - row;
            u = of_int col * s;
            v = of_int invRow * s
        in Inr \<lparr>uMin = u, vMin = v, uMax = u + s, vMax = v + s\<rparr>)"



subsection \<open>Names used in the proofs\<close>

text \<open>The two components of the shader's result, for a non-zero \<open>icon_id.y\<close>.\<close>

definition tex_u :: "u32 \<Rightarrow> u32 \<Rightarrow> real \<Rightarrow> real" where
  "tex_u x y tx =
     fadd (fmul (glsl_mod (float x) (float y)) (fdiv 1 (float y))) (fmul tx (fdiv 1 (float y)))"

definition tex_v :: "u32 \<Rightarrow> u32 \<Rightarrow> real \<Rightarrow> real" where
  "tex_v x y ty =
     fadd (fmul (float (y - 1 - x div y)) (fdiv 1 (float y))) (fmul ty (fdiv 1 (float y)))"

text \<open>Natural numbers with at most 24 significant bits.\<close>

definition fits24 :: "nat \<Rightarrow> bool" where
  "fits24 n \<longleftrightarrow> (\<exists>M j. n = M * 2 ^ j \<and> M < 2 ^ 24)"

section \<open>Rounding\<close>

lemma rne_of_int: "rne (of_int k) = k"
  by (simp add: rne_def)

lemma rne_lower: "\<lfloor>x\<rfloor> \<le> rne x"
  by (simp add: rne_def Let_def)

lemma rne_upper: "rne x \<le> \<lceil>x\<rceil>"
proof (cases "x = of_int \<lfloor>x\<rfloor>")
  case True
  then have "rne x = \<lfloor>x\<rfloor>" by (metis rne_of_int)
  then show ?thesis by (simp add: floor_le_ceiling)
next
  case False
  then have "\<lceil>x\<rceil> = \<lfloor>x\<rfloor> + 1" by (simp add: ceiling_altdef)
  then show ?thesis by (simp add: rne_def Let_def)
qed

lemma expo_lower:
  assumes "x \<noteq> 0"
  shows "2 powi expo x \<le> \<bar>x\<bar>"
proof (cases "1 \<le> \<bar>x\<bar>")
  case True
  define n where "n = \<lfloor>\<bar>x\<bar>\<rfloor>"
  have n: "0 < n" using True by (simp add: n_def)
  then have b: "1 \<le> bitlen n" by (simp add: bitlen_alt_def)
  have "2 ^ nat (bitlen n - 1) \<le> n" using bitlen_bounds [OF n] by simp
  then have "(2 :: real) ^ nat (bitlen n - 1) \<le> of_int n"
    by (metis of_int_le_iff of_int_numeral of_int_power)
  also have "\<dots> \<le> \<bar>x\<bar>" by (simp add: n_def)
  finally show ?thesis using True b by (simp add: expo_def n_def power_int_def)
next
  case False
  define t where "t = 1 / \<bar>x\<bar>"
  define c where "c = \<lceil>t\<rceil> - 1"
  have x: "0 < \<bar>x\<bar>" using assms by simp
  have t: "1 < t" using False x by (simp add: t_def)
  then have c: "0 < c" by (simp add: c_def)
  have "c < 2 ^ nat (bitlen c)" using bitlen_bounds [OF c] by simp
  then have "\<lceil>t\<rceil> \<le> 2 ^ nat (bitlen c)" by (simp add: c_def)
  then have "t \<le> 2 ^ nat (bitlen c)"
    by (metis ceiling_le_iff of_int_numeral of_int_power)
  then have "1 / 2 ^ nat (bitlen c) \<le> \<bar>x\<bar>"
    using x by (simp add: t_def field_simps)
  moreover have "2 powi (- bitlen c) = (1 :: real) / 2 ^ nat (bitlen c)"
    using bitlen_nonneg [of c] by (simp add: power_int_def field_simps)
  ultimately show ?thesis using False by (simp add: expo_def c_def t_def)
qed

lemma expo_upper:
  assumes "x \<noteq> 0"
  shows "\<bar>x\<bar> < 2 powi (expo x + 1)"
proof (cases "1 \<le> \<bar>x\<bar>")
  case True
  define n where "n = \<lfloor>\<bar>x\<bar>\<rfloor>"
  have n: "0 < n" using True by (simp add: n_def)
  then have b: "1 \<le> bitlen n" by (simp add: bitlen_alt_def)
  have "n < 2 ^ nat (bitlen n)" using bitlen_bounds [OF n] by simp
  then have "n + 1 \<le> 2 ^ nat (bitlen n)" by simp
  then have "of_int (n + 1) \<le> (2 :: real) ^ nat (bitlen n)"
    by (metis of_int_le_iff of_int_numeral of_int_power)
  moreover have "\<bar>x\<bar> < of_int (n + 1)" unfolding n_def by linarith
  ultimately have "\<bar>x\<bar> < 2 ^ nat (bitlen n)" by linarith
  then show ?thesis using True b by (simp add: expo_def n_def power_int_def)
next
  case False
  define t where "t = 1 / \<bar>x\<bar>"
  define c where "c = \<lceil>t\<rceil> - 1"
  have x: "0 < \<bar>x\<bar>" using assms by simp
  have t: "1 < t" using False x by (simp add: t_def)
  then have c: "0 < c" by (simp add: c_def)
  then have b: "1 \<le> bitlen c" by (simp add: bitlen_alt_def)
  have "2 ^ nat (bitlen c - 1) \<le> c" using bitlen_bounds [OF c] by simp
  then have "(2 :: real) ^ nat (bitlen c - 1) \<le> of_int c"
    by (metis of_int_le_iff of_int_numeral of_int_power)
  moreover have "of_int c < t" unfolding c_def by linarith
  ultimately have "(2 :: real) ^ nat (bitlen c - 1) < t" by linarith
  then have "\<bar>x\<bar> < 1 / 2 ^ nat (bitlen c - 1)"
    using x by (simp add: t_def field_simps)
  moreover have "2 powi (- bitlen c + 1) = (1 :: real) / 2 ^ nat (bitlen c - 1)"
    using b by (simp add: power_int_def field_simps nat_diff_distrib)
  ultimately show ?thesis using False by (simp add: expo_def c_def t_def)
qed

lemma powi2_less_imp_less:
  assumes "(2 :: real) powi a < 2 powi b"
  shows "a < b"
proof (rule ccontr)
  assume "\<not> a < b"
  then have "b \<le> a" by simp
  then have "(2 :: real) powi b \<le> 2 powi a" by (simp add: power_int_increasing)
  with assms show False by simp
qed

lemma rnd_exact:
  assumes m: "\<bar>m\<bar> < 2 ^ 24" and e: "- 149 \<le> e"
  shows "rnd (of_int m * 2 powi e) = of_int m * 2 powi e"
proof (cases "m = 0")
  case True
  then show ?thesis by (simp add: rnd_def)
next
  case False
  define x :: real where "x = of_int m * 2 powi e"
  have x0: "x \<noteq> 0" using False by (simp add: x_def)
  have ax: "\<bar>x\<bar> = of_int \<bar>m\<bar> * 2 powi e"
    by (simp add: x_def abs_mult power_int_abs)
  have "of_int \<bar>m\<bar> < (2 :: real) ^ 24"
    using m by (metis of_int_less_iff of_int_numeral of_int_power)
  then have "\<bar>x\<bar> < 2 ^ 24 * 2 powi e"
    unfolding ax by (simp add: mult_strict_right_mono)
  also have "\<dots> = 2 powi (24 + e)" by (simp add: power_int_add)
  finally have "2 powi expo x < (2 :: real) powi (24 + e)"
    using expo_lower [OF x0] by simp
  then have E: "expo x < 24 + e" by (rule powi2_less_imp_less)
  define E' where "E' = max (expo x) (- 126)"
  define d where "d = e - (E' - 23)"
  have d: "0 \<le> d" using E e by (simp add: d_def E'_def)
  have split: "(2 :: real) powi e = 2 powi d * 2 powi (E' - 23)"
    by (simp add: d_def power_int_add [symmetric])
  have "x / 2 powi (E' - 23) = of_int m * 2 powi d"
    by (simp add: x_def split)
  also have "\<dots> = of_int (m * 2 ^ nat d)"
    using d by (simp add: power_int_def)
  finally have "rne (x / 2 powi (E' - 23)) = m * 2 ^ nat d"
    by (simp only: rne_of_int)
  then have "rnd x = of_int (m * 2 ^ nat d) * 2 powi (E' - 23)"
    using x0 by (simp add: rnd_def Let_def E'_def)
  also have "\<dots> = of_int m * (2 powi d * 2 powi (E' - 23))"
    using d by (simp add: power_int_def)
  finally show ?thesis by (simp add: x_def split)
qed

lemma fits24_small: "n < 2 ^ 24 \<Longrightarrow> fits24 n"
  unfolding fits24_def by (rule exI [of _ n], rule exI [of _ 0]) simp

lemma rnd_fits24_div:
  assumes "fits24 n" and "k \<le> 149"
  shows "rnd (real n / 2 ^ k) = real n / 2 ^ k"
proof -
  obtain M j where n: "n = M * 2 ^ j" and M: "M < 2 ^ 24"
    using assms(1) by (auto simp: fits24_def)
  have "real n / 2 ^ k = of_int (int M) * 2 powi (int j - int k)"
    by (simp add: n power_int_diff)
  moreover have "\<bar>int M\<bar> < 2 ^ 24" using M by simp
  moreover have "- 149 \<le> int j - int k" using assms(2) by simp
  ultimately show ?thesis by (simp only: rnd_exact)
qed

lemma rnd_fits24:
  assumes "fits24 n"
  shows "rnd (real n) = real n"
  using rnd_fits24_div [OF assms, of 0] by simp

lemma fits24_round_down:
  assumes "fits24 n"
  shows "fits24 (2 ^ k * (n div 2 ^ k))"
proof -
  obtain M j where n: "n = M * 2 ^ j" and M: "M < 2 ^ 24"
    using assms by (auto simp: fits24_def)
  show ?thesis
  proof (cases "k \<le> j")
    case True
    then have "(2 :: nat) ^ k dvd n" by (simp add: n le_imp_power_dvd)
    then have "2 ^ k * (n div 2 ^ k) = n" by simp
    then show ?thesis using assms by simp
  next
    case False
    define i where "i = k - j"
    have k: "k = i + j" using False by (simp add: i_def)
    have "n div 2 ^ k = M div 2 ^ i"
      by (simp add: n k power_add)
    then have eq: "2 ^ k * (n div 2 ^ k) = (2 ^ i * (M div 2 ^ i)) * 2 ^ j"
      by (simp add: k power_add)
    have "2 ^ i * (M div 2 ^ i) \<le> M" by simp
    then have lt: "2 ^ i * (M div 2 ^ i) < 2 ^ 24" using M by (rule le_less_trans)
    show ?thesis
      unfolding fits24_def using eq lt by blast
  qed
qed

lemma rnd_nat_big:
  assumes n: "2 ^ 24 \<le> n"
  shows "\<exists>N j. rnd (real n) = real (N * 2 ^ j) \<and> N \<le> 2 ^ 24"
proof -
  define x where "x = real n"
  have x24: "2 ^ 24 \<le> x" unfolding x_def
    using n by (metis of_nat_le_iff of_nat_numeral of_nat_power)
  then have x0: "x \<noteq> 0" and ax: "\<bar>x\<bar> = x" by simp_all
  define E where "E = expo x"
  have up: "x < 2 powi (E + 1)" using expo_upper [OF x0] by (simp add: ax E_def)
  have "(2 :: real) powi 24 \<le> x" using x24 by simp
  then have "(2 :: real) powi 24 < 2 powi (E + 1)" using up by linarith
  then have "24 < E + 1" by (rule powi2_less_imp_less)
  then have E: "24 \<le> E" by simp
  define j where "j = nat (E - 23)"
  have j: "int j = E - 23" using E by (simp add: j_def)
  have ulp: "(2 :: real) powi (E - 23) = 2 ^ j" by (simp add: j [symmetric])
  define N where "N = rne (x / 2 ^ j)"
  have "E + 1 = int (24 + j)" using j by simp
  then have "(2 :: real) powi (E + 1) = 2 ^ (24 + j)" by (simp only: power_int_of_nat)
  then have "(2 :: real) powi (E + 1) = 2 ^ 24 * 2 ^ j" by (simp add: power_add)
  then have q: "x / 2 ^ j < 2 ^ 24" using up by (simp add: field_simps)
  have "0 \<le> x / 2 ^ j" by (simp add: x_def)
  then have f0: "0 \<le> \<lfloor>x / 2 ^ j\<rfloor>" by simp
  have N0: "0 \<le> N" unfolding N_def by (rule order_trans [OF f0 rne_lower])
  have c24: "\<lceil>x / 2 ^ j\<rceil> \<le> 2 ^ 24" using q by (simp add: ceiling_le_iff)
  have N24: "N \<le> 2 ^ 24" unfolding N_def by (rule order_trans [OF rne_upper c24])
  have m: "max (expo x) (- 126) = E" using E by (simp add: E_def)
  have "rnd x = of_int (rne (x / 2 powi (E - 23))) * 2 powi (E - 23)"
    using x0 unfolding rnd_def Let_def m by simp
  then have "rnd x = of_int N * 2 ^ j" unfolding ulp N_def .
  also have "\<dots> = real (nat N * 2 ^ j)" using N0 by simp
  finally have r: "rnd (real n) = real (nat N * 2 ^ j)" by (simp add: x_def)
  have "nat N \<le> 2 ^ 24" using N24 by (simp add: nat_le_iff)
  with r show ?thesis by blast
qed


lemma rnd_nat_fits:
  "\<exists>n'. rnd (real n) = real n' \<and> fits24 n' \<and> (n < 2 ^ 24 \<longrightarrow> n' = n)"
proof (cases "n < 2 ^ 24")
  case True
  have "rnd (real n) = real n \<and> fits24 n \<and> (n < 2 ^ 24 \<longrightarrow> n = n)"
    using rnd_fits24 [OF fits24_small [OF True]] fits24_small [OF True] by simp
  then show ?thesis by (rule exI)
next
  case False
  then obtain N j where r: "rnd (real n) = real (N * 2 ^ j)" and N: "N \<le> 2 ^ 24"
    using rnd_nat_big [of n] by auto
  have "fits24 (N * 2 ^ j)"
  proof (cases "N = 2 ^ 24")
    case True
    then have "N * 2 ^ j = 1 * 2 ^ (24 + j)" by (simp add: power_add)
    moreover have "(1 :: nat) < 2 ^ 24" by simp
    ultimately show ?thesis unfolding fits24_def by blast
  next
    case False
    then have "N < 2 ^ 24" using N by simp
    then show ?thesis unfolding fits24_def by blast
  qed
  then have "rnd (real n) = real (N * 2 ^ j) \<and> fits24 (N * 2 ^ j) \<and>
      (n < 2 ^ 24 \<longrightarrow> N * 2 ^ j = n)"
    using r False by simp
  then show ?thesis by (rule exI)
qed

lemma glsl_mod_pow2:
  assumes f: "fits24 n" and k: "k \<le> 23"
  shows "glsl_mod (real n) (2 ^ k) = real (n mod 2 ^ k)"
proof -
  have d: "fdiv (real n) (2 ^ k) = real n / 2 ^ k"
    unfolding fdiv_def using f k by (simp add: rnd_fits24_div)
  have "\<lfloor>real n / real (2 ^ k)\<rfloor> = int (n div 2 ^ k)"
    by (rule floor_divide_of_nat_eq)
  then have fl: "glsl_floor (real n / 2 ^ k) = real (n div 2 ^ k)"
    by (simp add: glsl_floor_def)
  have "fmul (2 ^ k) (real (n div 2 ^ k)) = rnd (real (2 ^ k * (n div 2 ^ k)))"
    by (simp add: fmul_def)
  also have "\<dots> = real (2 ^ k * (n div 2 ^ k))"
    using f by (intro rnd_fits24 fits24_round_down)
  finally have m: "fmul (2 ^ k) (real (n div 2 ^ k)) = real (2 ^ k * (n div 2 ^ k))" .
  have "n mod 2 ^ k < 2 ^ k" by simp
  also have "(2 :: nat) ^ k < 2 ^ 24"
    by (rule power_strict_increasing) (use k in simp_all)
  finally have small: "fits24 (n mod 2 ^ k)" by (rule fits24_small)
  have "real n - real (2 ^ k * (n div 2 ^ k)) = real (n - 2 ^ k * (n div 2 ^ k))"
    by (simp add: of_nat_diff)
  also have "n - 2 ^ k * (n div 2 ^ k) = n mod 2 ^ k"
    by (simp add: minus_mult_div_eq_mod)
  finally have "fsub (real n) (real (2 ^ k * (n div 2 ^ k))) = real (n mod 2 ^ k)"
    unfolding fsub_def using small by (simp only: rnd_fits24)
  then show ?thesis
    unfolding glsl_mod_def d fl m .
qed

section \<open>Arithmetic of the shader\<close>

text \<open>The inverted row does not wrap as long as the row is below \<open>sideCount\<close>.\<close>

lemma unat_inv_row:
  fixes n i :: u32
  assumes "unat i div unat n < unat n"
  shows "unat (n - 1 - i div n) = unat n - 1 - unat i div unat n"
proof -
  have n0: "n \<noteq> 0" using assms by (auto simp: unat_eq_0)
  then have "1 \<le> n" by (simp add: word_le_nat_alt unat_gt_0 Suc_le_eq)
  then have a: "unat (n - 1) = unat n - 1" by (simp add: unat_sub)
  have "unat (i div n) = unat i div unat n" by (simp add: unat_div)
  then have "i div n \<le> n - 1" using assms a by (simp add: word_le_nat_alt)
  then show ?thesis using a by (simp add: unat_sub unat_div)
qed

lemma valid_row:
  fixes a b :: nat
  assumes "a < b ^ 2"
  shows "a div b < b"
  using assms by (simp add: power2_eq_square less_mult_imp_div_less)

lemma unat_max_u32: "unat (- 1 :: u32) = 4294967295"
  by (simp add: unsigned_minus_1_eq_mask mask_eq_exp_minus_1)

text \<open>A step to the right inside a row keeps the row and moves the column by one.\<close>

lemma same_row_step:
  fixes n i :: u32
  assumes "(i + 1) mod n \<noteq> 0"
  shows "(i + 1) div n = i div n" and "unat (i + 1) mod unat n = unat i mod unat n + 1"
proof -
  have "i + 1 \<noteq> 0" using assms by auto
  then have s: "unat (i + 1) = Suc (unat i)"
    by (simp add: unatSuc add.commute)
  have m: "Suc (unat i) mod unat n \<noteq> 0"
    using assms s by (metis unat_mod unat_eq_0)
  then have d: "Suc (unat i) div unat n = unat i div unat n"
    by (simp add: div_Suc)
  have "unat ((i + 1) div n) = unat (i div n)"
    by (simp add: unat_div s d)
  then show "(i + 1) div n = i div n" by (simp add: word_unat_eq_iff)
  show "unat (i + 1) mod unat n = unat i mod unat n + 1"
    using m s by (simp add: mod_Suc split: if_splits)
qed

lemma vs_tex_coord_eq:
  "y \<noteq> 0 \<Longrightarrow> vs_tex_coord (x, y) (tx, ty) = Some (tex_u x y tx, tex_v x y ty)"
  by (simp add: vs_tex_coord_def tex_u_def tex_v_def Let_def)

lemma rectForIndex_eq:
  "y \<noteq> 0 \<Longrightarrow> rectForIndex y x =
     Some \<lparr>uMin = tex_u x y 0, vMin = tex_v x y 0, uMax = tex_u x y 1, vMax = tex_v x y 1\<rparr>"
  by (simp add: rectForIndex_def vs_tex_coord_eq)

lemma pow2_small: "k \<le> 23 \<Longrightarrow> (2 :: nat) ^ k < 2 ^ 24"
  by (rule power_strict_increasing) simp_all

lemma float_pow2:
  assumes "unat y = 2 ^ k" and "k \<le> 23"
  shows "float y = 2 ^ k"
  using rnd_fits24 [OF fits24_small [OF pow2_small [OF assms(2)]]]
  by (simp add: float_def assms(1) del: of_nat_unat)

lemma square_side_pow2:
  assumes "unat y = 2 ^ k" and "k \<le> 23"
  shows "fdiv 1 (float y) = 1 / 2 ^ k"
proof -
  have "fits24 1" by (rule fits24_small) simp
  then have "rnd (real 1 / 2 ^ k) = real 1 / 2 ^ k"
    by (rule rnd_fits24_div) (use assms(2) in simp)
  then show ?thesis by (simp add: fdiv_def float_pow2 [OF assms])
qed

text \<open>A numerator of at most \<open>2 ^ k\<close> over \<open>2 ^ k\<close> is a float, for \<open>k\<close> up to 23.\<close>

lemma rnd_frac_pow2:
  assumes "c \<le> 2 ^ k" and "k \<le> 23"
  shows "rnd (real c / 2 ^ k) = real c / 2 ^ k"
proof -
  have "c < 2 ^ 24" using assms(1) pow2_small [OF assms(2)] by (rule le_less_trans)
  then have "fits24 c" by (rule fits24_small)
  then show ?thesis by (rule rnd_fits24_div) (use assms(2) in simp)
qed

lemma tex_u_pow2:
  assumes y: "unat y = 2 ^ k" and k: "k \<le> 23"
  shows "\<exists>c. c < 2 ^ k \<and> (unat x < 2 ^ 24 \<longrightarrow> c = unat x mod 2 ^ k) \<and>
             tex_u x y 0 = real c / 2 ^ k \<and> tex_u x y 1 = (real c + 1) / 2 ^ k"
proof -
  obtain n where n: "float x = real n" and f: "fits24 n"
    and small: "unat x < 2 ^ 24 \<longrightarrow> n = unat x"
    using rnd_nat_fits [of "unat x"] unfolding float_def by auto
  define c where "c = n mod 2 ^ k"
  have c: "c < 2 ^ k" by (simp add: c_def)
  have m: "glsl_mod (float x) (float y) = real c"
    unfolding n float_pow2 [OF y k] c_def
    by (rule glsl_mod_pow2 [OF f]) (use k in simp)
  have p: "fmul (real c) (1 / 2 ^ k) = real c / 2 ^ k"
    using rnd_frac_pow2 [of c k] c k by (simp add: fmul_def)
  have one: "fmul 1 (1 / 2 ^ k) = 1 / 2 ^ k"
    using rnd_frac_pow2 [of 1 k] k by (simp add: fmul_def)
  have zero: "fmul 0 (1 / 2 ^ k) = 0" by (simp add: fmul_def rnd_def)
  have u0: "tex_u x y 0 = real c / 2 ^ k"
    unfolding tex_u_def m square_side_pow2 [OF y k] p zero
    using rnd_frac_pow2 [of c k] c k by (simp add: fadd_def)
  have "real c / 2 ^ k + 1 / 2 ^ k = real (c + 1) / 2 ^ k"
    by (simp add: add_divide_distrib)
  then have "fadd (real c / 2 ^ k) (1 / 2 ^ k) = real (c + 1) / 2 ^ k"
    using rnd_frac_pow2 [of "c + 1" k] c k by (simp add: fadd_def)
  then have u1: "tex_u x y 1 = (real c + 1) / 2 ^ k"
    unfolding tex_u_def m square_side_pow2 [OF y k] p one by simp
  have "unat x < 2 ^ 24 \<longrightarrow> c = unat x mod 2 ^ k" using small by (simp add: c_def)
  then show ?thesis using c u0 u1 by blast
qed

lemma tex_v_pow2:
  assumes y: "unat y = 2 ^ k" and k: "k \<le> 23" and row: "unat x div 2 ^ k < 2 ^ k"
  shows "tex_v x y 0 = real (2 ^ k - 1 - unat x div 2 ^ k) / 2 ^ k"
    and "tex_v x y 1 = (real (2 ^ k - 1 - unat x div 2 ^ k) + 1) / 2 ^ k"
proof -
  define r where "r = 2 ^ k - 1 - unat x div 2 ^ k"
  have r: "r < 2 ^ k" by (simp add: r_def) 
  have w: "unat (y - 1 - x div y) = r"
    using unat_inv_row [of x y] row by (simp add: y r_def)
  have "r < 2 ^ 24" using r pow2_small [OF k] by (rule less_trans)
  then have fl: "float (y - 1 - x div y) = real r"
    unfolding float_def w by (intro rnd_fits24 fits24_small)
  have p: "fmul (real r) (1 / 2 ^ k) = real r / 2 ^ k"
    using rnd_frac_pow2 [of r k] r k by (simp add: fmul_def)
  have one: "fmul 1 (1 / 2 ^ k) = 1 / 2 ^ k"
    using rnd_frac_pow2 [of 1 k] k by (simp add: fmul_def)
  have zero: "fmul 0 (1 / 2 ^ k) = 0" by (simp add: fmul_def rnd_def)
  show "tex_v x y 0 = real (2 ^ k - 1 - unat x div 2 ^ k) / 2 ^ k"
    unfolding tex_v_def fl square_side_pow2 [OF y k] p zero r_def [symmetric]
    using rnd_frac_pow2 [of r k] r k by (simp add: fadd_def)
  have "real r / 2 ^ k + 1 / 2 ^ k = real (r + 1) / 2 ^ k"
    by (simp add: add_divide_distrib)
  then have "fadd (real r / 2 ^ k) (1 / 2 ^ k) = real (r + 1) / 2 ^ k"
    using rnd_frac_pow2 [of "r + 1" k] r k by (simp add: fadd_def)
  then show "tex_v x y 1 = (real (2 ^ k - 1 - unat x div 2 ^ k) + 1) / 2 ^ k"
    unfolding tex_v_def fl square_side_pow2 [OF y k] p one r_def [symmetric] by simp
qed

lemma rectForIndex_spec_valid:
  fixes a b :: nat
  assumes "1 \<le> b" and "a < b ^ 2"
  shows "rectForIndex_spec (int b) (int a) =
    Inr \<lparr>uMin = real (a mod b) / real b,
          vMin = real (b - 1 - a div b) / real b,
          uMax = (real (a mod b) + 1) / real b,
          vMax = (real (b - 1 - a div b) + 1) / real b\<rparr>"
proof -
  have r: "a div b < b" using assms(2) by (rule valid_row)
  have "int a < (int b)\<^sup>2" using assms(2) by (metis of_nat_less_iff of_nat_power)
  moreover have "int a mod int b = int (a mod b)" by (simp add: zmod_int)
  moreover have "int b - 1 - int a div int b = int (b - 1 - a div b)"
    using r by (simp add: of_nat_diff zdiv_int)
  ultimately show ?thesis
    by (simp add: rectForIndex_spec_def Let_def add_divide_distrib
          del: of_nat_diff of_nat_mod of_nat_div)
qed

text \<open>
  For a layout of \<open>2 ^ k\<close> icons per side, \<open>k \<le> 23\<close>, and a valid index, the shader's
  rectangle is the one of exact arithmetic for some column below \<open>sideCount\<close>, and
  for the inverted row of the index.
\<close>

lemma rectForIndex_pow2_column:
  assumes y: "unat n = 2 ^ k" and k: "k \<le> 23" and valid: "unat i < unat n ^ 2"
  shows "\<exists>c. c < unat n \<and> (unat i < 2 ^ 24 \<longrightarrow> c = unat i mod unat n) \<and>
    rectForIndex n i =
      Some \<lparr>uMin = real c / real (unat n),
            vMin = real (unat n - 1 - unat i div unat n) / real (unat n),
            uMax = (real c + 1) / real (unat n),
            vMax = (real (unat n - 1 - unat i div unat n) + 1) / real (unat n)\<rparr>"
proof -
  have n0: "n \<noteq> 0" using y by auto
  have row: "unat i div 2 ^ k < 2 ^ k" using valid_row [OF valid] by (simp add: y)
  obtain c where c: "c < 2 ^ k" "unat i < 2 ^ 24 \<longrightarrow> c = unat i mod 2 ^ k"
    and u: "tex_u i n 0 = real c / 2 ^ k" "tex_u i n 1 = (real c + 1) / 2 ^ k"
    using tex_u_pow2 [OF y k, of i] by auto
  have "rectForIndex n i =
      Some \<lparr>uMin = real c / real (unat n),
            vMin = real (unat n - 1 - unat i div unat n) / real (unat n),
            uMax = (real c + 1) / real (unat n),
            vMax = (real (unat n - 1 - unat i div unat n) + 1) / real (unat n)\<rparr>"
    unfolding rectForIndex_eq [OF n0] tex_v_pow2 [OF y k row] u by (simp add: y)
  then show ?thesis using c by (auto simp: y)
qed

text \<open>
  For \<open>k \<le> 12\<close> a valid index is below \<open>2 ^ 24\<close>, its conversion to \<open>float\<close> is exact,
  and the column is the one of the index.
\<close>

lemma rectForIndex_pow2:
  assumes y: "unat n = 2 ^ k" and k: "k \<le> 12" and valid: "unat i < unat n ^ 2"
  shows "rectForIndex n i =
    Some \<lparr>uMin = real (unat i mod unat n) / real (unat n),
          vMin = real (unat n - 1 - unat i div unat n) / real (unat n),
          uMax = (real (unat i mod unat n) + 1) / real (unat n),
          vMax = (real (unat n - 1 - unat i div unat n) + 1) / real (unat n)\<rparr>"
proof -
  have k23: "k \<le> 23" using k by simp
  have "(2 :: nat) ^ (2 * k) \<le> 2 ^ 24"
    by (rule power_increasing) (use k in simp_all)
  then have "unat i < 2 ^ 24" using valid by (simp add: y power_mult [symmetric] mult.commute)
  then show ?thesis using rectForIndex_pow2_column [OF y k23 valid] by auto
qed

section \<open>Evaluation at particular inputs\<close>

lemma float_1: "float 1 = 1"
  unfolding float_def by (simp del: of_nat_unat) code_simp

lemma float_4097: "float 4097 = 4097"
  unfolding float_def by (simp del: of_nat_unat) code_simp

lemma float_16777216: "float 16777216 = 16777216"
  unfolding float_def by (simp del: of_nat_unat) code_simp

text \<open>\<open>2 ^ 24 + 1\<close> is not a float; the conversion gives \<open>2 ^ 24\<close>.\<close>

lemma float_16777217: "float 16777217 = 16777216"
  unfolding float_def by (simp del: of_nat_unat) code_simp

text \<open>
  With 4097 icons per side, an index that converts to \<open>2 ^ 24\<close> and lies in row 4095:
  \<open>square_side\<close> is \<open>16773121 / 2 ^ 36\<close>, the column is 1 and the inverted row is 1.
\<close>

lemma rect_4097:
  assumes "float x = 16777216" and "4097 - 1 - x div 4097 = 1"
  shows "rectForIndex 4097 x =
    Some \<lparr>uMin = 16773121 / 68719476736, vMin = 16773121 / 68719476736,
          uMax = 16773121 / 34359738368, vMax = 16773121 / 34359738368\<rparr>"
proof -
  have s: "fdiv 1 4097 = 16773121 / 68719476736" by code_simp
  have m: "glsl_mod 16777216 4097 = 1" by code_simp
  have p0: "fadd (fmul 1 (16773121 / 68719476736)) (fmul 0 (16773121 / 68719476736))
      = 16773121 / 68719476736" by code_simp
  have p1: "fadd (fmul 1 (16773121 / 68719476736)) (fmul 1 (16773121 / 68719476736))
      = 16773121 / 34359738368" by code_simp
  have n0: "(4097 :: u32) \<noteq> 0" by simp
  show ?thesis
    unfolding rectForIndex_eq [OF n0] tex_u_def tex_v_def assms float_4097 float_1 s m p0 p1 ..
qed

section \<open>The rectangle of a valid index\<close>

text \<open>
  The shader does not compute the specification's rectangle for every valid index.
  With 4097 icons per side, index \<open>16777217 = 2 ^ 24 + 1\<close> is valid
  (\<open>4097\<^sup>2 = 16785409\<close>) and lies in column 2 of row 4095; converted to \<open>float\<close> it
  becomes \<open>2 ^ 24\<close>, and the shader returns the rectangle of column 1.
\<close>

theorem rectForIndex_4097_not_spec:
  "rectForIndex 4097 16777217 =
     Some \<lparr>uMin = 16773121 / 68719476736, vMin = 16773121 / 68719476736,
           uMax = 16773121 / 34359738368, vMax = 16773121 / 34359738368\<rparr> \<and>
   rectForIndex_spec 4097 16777217 =
     Inr \<lparr>uMin = 2 / 4097, vMin = 1 / 4097, uMax = 3 / 4097, vMax = 2 / 4097\<rparr>"
proof -
  have "rectForIndex 4097 16777217 =
     Some \<lparr>uMin = 16773121 / 68719476736, vMin = 16773121 / 68719476736,
           uMax = 16773121 / 34359738368, vMax = 16773121 / 34359738368\<rparr>"
    by (rule rect_4097) (simp_all add: float_16777217)
  moreover have "rectForIndex_spec 4097 16777217 =
     Inr \<lparr>uMin = 2 / 4097, vMin = 1 / 4097, uMax = 3 / 4097, vMax = 2 / 4097\<rparr>"
    by (simp add: rectForIndex_spec_def Let_def)
  ultimately show ?thesis by (rule conjI)
qed

text \<open>
  Claim C1, amended. For every layout whose \<open>sideCount\<close> is a power of two, at most
  4096 (the program's layout, 4, is one), and every index below \<open>sideCount\<^sup>2\<close>, the
  rectangle the vertex shader computes from the \<open>icon_id\<close> uniform is exactly the
  rectangle of the specification's arithmetic: \<open>s = 1 / sideCount\<close>,
  \<open>col = index mod sideCount\<close>, \<open>row = index div sideCount\<close>,
  \<open>invRow = sideCount - 1 - row\<close>, \<open>uMin = col * s\<close>, \<open>uMax = uMin + s\<close>,
  \<open>vMin = invRow * s\<close>, \<open>vMax = vMin + s\<close>.
\<close>

theorem rectForIndex_is_spec_arithmetic:
  assumes "unat sideCount = 2 ^ k" and "k \<le> 12" and "unat index < unat sideCount ^ 2"
  shows "\<exists>r. rectForIndex sideCount index = Some r \<and>
             rectForIndex_spec (uint sideCount) (uint index) = Inr r"
proof -
  have "1 \<le> unat sideCount" using assms(1) by simp
  then show ?thesis
    using assms(3)
    by (simp add: rectForIndex_pow2 [OF assms] rectForIndex_spec_valid uint_nat
          del: of_nat_unat)
qed

theorem rectForIndex_is_spec_arithmetic_witness:
  "unat (4 :: u32) = 2 ^ 2 \<and> (2 :: nat) \<le> 12 \<and> unat (6 :: u32) < unat (4 :: u32) ^ 2 \<and>
   (\<exists>r. rectForIndex 4 6 = Some r \<and> rectForIndex_spec (uint (4 :: u32)) (uint (6 :: u32)) = Inr r)"
  using rectForIndex_is_spec_arithmetic [of 4 2 6] by simp

text \<open>
  The rectangle of a valid index can leave the unit square, and its width is not
  \<open>1 / sideCount\<close> when that is not a float. With 7 icons per side and index 6,
  \<open>square_side\<close> is \<open>9586981 / 2 ^ 26\<close>, above \<open>1 / 7\<close>, and the right and upper edges
  are \<open>1 + 2 ^ (- 23)\<close>.
\<close>

theorem rectForIndex_7_6_leaves_unit_square:
  "rectForIndex 7 6 =
     Some \<lparr>uMin = 1797559 / 2097152, vMin = 1797559 / 2097152,
           uMax = 8388609 / 8388608, vMax = 8388609 / 8388608\<rparr>"
proof -
  have f7: "float 7 = 7" unfolding float_def by (simp del: of_nat_unat) code_simp
  have f6: "float 6 = 6" unfolding float_def by (simp del: of_nat_unat) code_simp
  have w: "(7 - 1 - 6 div 7 :: u32) = 6" by simp
  have s: "fdiv 1 7 = 9586981 / 67108864" by code_simp
  have m: "glsl_mod 6 7 = 6" by code_simp
  have p0: "fadd (fmul 6 (9586981 / 67108864)) (fmul 0 (9586981 / 67108864))
      = 1797559 / 2097152" by code_simp
  have p1: "fadd (fmul 6 (9586981 / 67108864)) (fmul 1 (9586981 / 67108864))
      = 8388609 / 8388608" by code_simp
  have n0: "(7 :: u32) \<noteq> 0" by simp
  show ?thesis
    unfolding rectForIndex_eq [OF n0] tex_u_def tex_v_def w f7 f6 s m p0 p1 ..
qed

text \<open>
  Claim C2, amended. For every layout whose \<open>sideCount\<close> is a power of two, at most
  \<open>2 ^ 23\<close>, and every index below \<open>sideCount\<^sup>2\<close>, the rectangle lies in the unit square,
  \<open>0 \<le> uMin < uMax \<le> 1\<close> and \<open>0 \<le> vMin < vMax \<le> 1\<close>, and its width and its height
  are exactly \<open>s = 1 / sideCount\<close>.
\<close>

theorem rectForIndex_in_unit_square:
  assumes "unat sideCount = 2 ^ k" and "k \<le> 23" and "unat index < unat sideCount ^ 2"
  shows "\<exists>r. rectForIndex sideCount index = Some r \<and>
             0 \<le> uMin r \<and> uMin r < uMax r \<and> uMax r \<le> 1 \<and>
             0 \<le> vMin r \<and> vMin r < vMax r \<and> vMax r \<le> 1 \<and>
             uMax r - uMin r = 1 / real (unat sideCount) \<and>
             vMax r - vMin r = 1 / real (unat sideCount)"
proof -
  define b where "b = unat sideCount"
  define a where "a = unat index"
  obtain c where c: "c < b" and r: "rectForIndex sideCount index =
      Some \<lparr>uMin = real c / real b, vMin = real (b - 1 - a div b) / real b,
            uMax = (real c + 1) / real b, vMax = (real (b - 1 - a div b) + 1) / real b\<rparr>"
    using rectForIndex_pow2_column [OF assms] unfolding a_def b_def by blast
  have b: "0 < b" using assms(1) by (simp add: b_def)
  have inv: "b - 1 - a div b < b" using b by arith
  have u1: "(real c + 1) / real b \<le> 1"
    using b c by (simp add: divide_le_eq_1)
  have v1: "(real (b - 1 - a div b) + 1) / real b \<le> 1"
    using b inv by (simp add: divide_le_eq_1)
  have w: "(x + 1) / real b - x / real b = 1 / real b" for x
    by (simp add: add_divide_distrib)
  have lt: "x / real b < (x + 1) / real b" for x
    using b by (simp add: divide_strict_right_mono)
  show ?thesis
    unfolding r b_def [symmetric] using u1 v1 w lt by simp
qed

theorem rectForIndex_in_unit_square_witness:
  "unat (4 :: u32) = 2 ^ 2 \<and> (2 :: nat) \<le> 23 \<and> unat (15 :: u32) < unat (4 :: u32) ^ 2 \<and>
   (\<exists>r. rectForIndex 4 15 = Some r \<and>
        0 \<le> uMin r \<and> uMin r < uMax r \<and> uMax r \<le> 1 \<and>
        0 \<le> vMin r \<and> vMin r < vMax r \<and> vMax r \<le> 1 \<and>
        uMax r - uMin r = 1 / real (unat (4 :: u32)) \<and>
        vMax r - vMin r = 1 / real (unat (4 :: u32)))"
  using rectForIndex_in_unit_square [of 4 2 15] by simp

text \<open>
  The specification's example for index 0 does not hold: with four icons per side the
  shader does not give index 0 the rectangle from \<open>(0, 0)\<close> to
  \<open>(0.25, 0.25)\<close>.
\<close>

theorem rectForIndex_4_0_not_bottom_left:
  "rectForIndex 4 0 \<noteq> Some \<lparr>uMin = 0, vMin = 0, uMax = 1 / 4, vMax = 1 / 4\<rparr>"
  using rectForIndex_pow2 [of 4 2 0] by simp

text \<open>
  Claim C5, amended. For a layout with \<open>sideCount = 4\<close>, the rectangle of index 0 is
  \<open>uMin = 0\<close>, \<open>vMin = 0.75\<close>, \<open>uMax = 0.25\<close>, \<open>vMax = 1\<close>: row 0 is inverted to
  \<open>invRow = 3\<close>, the row at the top of normalized texture space. The specification's
  own arithmetic gives the same rectangle.
\<close>

theorem rectForIndex_4_0:
  "rectForIndex 4 0 = Some \<lparr>uMin = 0, vMin = 3 / 4, uMax = 1 / 4, vMax = 1\<rparr> \<and>
   rectForIndex_spec 4 0 = Inr \<lparr>uMin = 0, vMin = 3 / 4, uMax = 1 / 4, vMax = 1\<rparr>"
  using rectForIndex_pow2 [of 4 2 0] by (simp add: rectForIndex_spec_def Let_def)

text \<open>
  Two neighbours of a row need not differ. With 4097 icons per side, the indices
  \<open>2 ^ 24\<close> and \<open>2 ^ 24 + 1\<close> are valid and lie in row 4095 (columns 1 and 2); both
  convert to the float \<open>2 ^ 24\<close>, and the shader gives them the same rectangle.
\<close>

theorem rectForIndex_4097_neighbours_equal:
  "rectForIndex 4097 16777216 =
     Some \<lparr>uMin = 16773121 / 68719476736, vMin = 16773121 / 68719476736,
           uMax = 16773121 / 34359738368, vMax = 16773121 / 34359738368\<rparr> \<and>
   rectForIndex 4097 (16777216 + 1) =
     Some \<lparr>uMin = 16773121 / 68719476736, vMin = 16773121 / 68719476736,
           uMax = 16773121 / 34359738368, vMax = 16773121 / 34359738368\<rparr> \<and>
   (16777216 + 1 :: u32) mod 4097 \<noteq> 0"
proof -
  have "rectForIndex 4097 16777216 =
     Some \<lparr>uMin = 16773121 / 68719476736, vMin = 16773121 / 68719476736,
           uMax = 16773121 / 34359738368, vMax = 16773121 / 34359738368\<rparr>"
    by (rule rect_4097) (simp_all add: float_16777216)
  moreover have "rectForIndex 4097 16777217 =
     Some \<lparr>uMin = 16773121 / 68719476736, vMin = 16773121 / 68719476736,
           uMax = 16773121 / 34359738368, vMax = 16773121 / 34359738368\<rparr>"
    by (rule rect_4097) (simp_all add: float_16777217)
  ultimately show ?thesis by simp
qed

text \<open>
  Claim C6, amended. For every layout whose \<open>sideCount\<close> is a power of two, at most
  4096, and two valid indices \<open>i\<close> and \<open>i + 1\<close> of the same row, that is
  \<open>(i + 1) mod sideCount \<noteq> 0\<close>, the two rectangles have the same \<open>vMin\<close> and \<open>vMax\<close>,
  and \<open>uMin\<close> and \<open>uMax\<close> of the second are those of the first plus exactly
  \<open>s = 1 / sideCount\<close>.
\<close>

theorem rectForIndex_adjacent_in_row:
  assumes "unat sideCount = 2 ^ k" and "k \<le> 12"
    and "unat i < unat sideCount ^ 2"
    and "unat (i + 1) < unat sideCount ^ 2"
    and "(i + 1) mod sideCount \<noteq> 0"
  shows "\<exists>r r'. rectForIndex sideCount i = Some r \<and>
           rectForIndex sideCount (i + 1) = Some r' \<and>
           vMin r' = vMin r \<and> vMax r' = vMax r \<and>
           uMin r' = uMin r + 1 / real (unat sideCount) \<and>
           uMax r' = uMax r + 1 / real (unat sideCount)"
proof -
  have "unat ((i + 1) div sideCount) = unat (i div sideCount)"
    using same_row_step(1) [OF assms(5)] by simp
  then have d: "unat (i + 1) div unat sideCount = unat i div unat sideCount"
    by (simp add: unat_div)
  show ?thesis
    unfolding rectForIndex_pow2 [OF assms(1,2,3)] rectForIndex_pow2 [OF assms(1,2,4)]
      same_row_step(2) [OF assms(5)] d
    by (simp add: add_divide_distrib)
qed

theorem rectForIndex_adjacent_in_row_witness:
  "unat (4 :: u32) = 2 ^ 2 \<and> (2 :: nat) \<le> 12 \<and> unat (5 :: u32) < unat (4 :: u32) ^ 2 \<and>
   unat (5 + 1 :: u32) < unat (4 :: u32) ^ 2 \<and> (5 + 1 :: u32) mod 4 \<noteq> 0 \<and>
   (\<exists>r r'. rectForIndex 4 5 = Some r \<and> rectForIndex 4 (5 + 1) = Some r' \<and>
           vMin r' = vMin r \<and> vMax r' = vMax r \<and>
           uMin r' = uMin r + 1 / real (unat (4 :: u32)) \<and>
           uMax r' = uMax r + 1 / real (unat (4 :: u32)))"
  using rectForIndex_adjacent_in_row [of 4 2 5] by simp

section \<open>Indices at and above \<open>sideCount\<^sup>2\<close>\<close>

text \<open>
  The shader has no bound check and no error to report. One past the end, with four
  icons per side, the specification's operation fails with OutOfRange, while the shader
  returns a rectangle: the row is 4, \<open>4 - 1 - 4\<close> wraps to \<open>2\<^sup>3\<^sup>2 - 1\<close>, which
  converts to the float \<open>2\<^sup>3\<^sup>2\<close>, and both \<open>vMin\<close> and \<open>vMax\<close> are \<open>2\<^sup>3\<^sup>0\<close>. (The
  texture is set to \<open>GL_CLAMP_TO_EDGE\<close>, lines 52 to 54, so that coordinates outside
  \<open>[0, 1]\<close> sample the edge texel.)
\<close>

theorem rectForIndex_4_16_returns_rectangle:
  "rectForIndex 4 16 =
     Some \<lparr>uMin = 0, vMin = 1073741824, uMax = 1 / 4, vMax = 1073741824\<rparr> \<and>
   rectForIndex_spec 4 16 = Inl OutOfRange"
proof -
  have f4: "float 4 = 4" unfolding float_def by (simp del: of_nat_unat) code_simp
  have f16: "float 16 = 16" unfolding float_def by (simp del: of_nat_unat) code_simp
  have w: "(4 - 1 - 16 div 4 :: u32) = 4294967295" by simp
  have fw: "float 4294967295 = 4294967296"
    unfolding float_def by (simp del: of_nat_unat) code_simp
  have s: "fdiv 1 4 = 1 / 4" by code_simp
  have m: "glsl_mod 16 4 = 0" by code_simp
  have u0: "fadd (fmul 0 (1 / 4)) (fmul 0 (1 / 4)) = 0" by code_simp
  have u1: "fadd (fmul 0 (1 / 4)) (fmul 1 (1 / 4)) = 1 / 4" by code_simp
  have v0: "fadd (fmul 4294967296 (1 / 4)) (fmul 0 (1 / 4)) = 1073741824" by code_simp
  have v1: "fadd (fmul 4294967296 (1 / 4)) (fmul 1 (1 / 4)) = 1073741824" by code_simp
  have n0: "(4 :: u32) \<noteq> 0" by simp
  have "rectForIndex 4 16 =
     Some \<lparr>uMin = 0, vMin = 1073741824, uMax = 1 / 4, vMax = 1073741824\<rparr>"
    unfolding rectForIndex_eq [OF n0] tex_u_def tex_v_def w f4 f16 fw s m u0 u1 v0 v1 ..
  moreover have "rectForIndex_spec 4 16 = Inl OutOfRange"
    by (simp add: rectForIndex_spec_def)
  ultimately show ?thesis by (rule conjI)
qed

text \<open>
  Claim C4, amended. For every layout with \<open>sideCount \<ge> 1\<close>, calling rectForIndex with
  an index at or above \<open>sideCount\<^sup>2\<close>, in particular one past the end, raises no error:
  a rectangle is returned.
\<close>

theorem rectForIndex_out_of_range:
  assumes "1 \<le> unat sideCount" and "unat sideCount ^ 2 \<le> unat index"
  shows "\<exists>r. rectForIndex sideCount index = Some r"
proof -
  have "sideCount \<noteq> 0" using assms(1) by auto
  then show ?thesis by (simp add: rectForIndex_eq)
qed

theorem rectForIndex_out_of_range_witness:
  "1 \<le> unat (4 :: u32) \<and> unat (4 :: u32) ^ 2 \<le> unat (16 :: u32) \<and>
   (\<exists>r. rectForIndex 4 16 = Some r)"
  using rectForIndex_out_of_range [of 4 16] by simp

text \<open>
  The column computed by \<open>mod\<close> on floats is not always between 0 and
  \<open>sideCount - 1\<close>. With 3 icons per side and index \<open>50331652 = 3 * 2 ^ 24 + 4\<close>, the
  quotient rounds up to 16777218, three times it rounds up to 50331656, and
  \<open>mod\<close> is \<open>- 4\<close>: the left edge is \<open>- 11184811 / 2 ^ 23\<close>, about \<open>- 1.33\<close>.
\<close>

theorem rectForIndex_3_negative_u:
  "rectForIndex 3 50331652 =
     Some \<lparr>uMin = - (11184811 / 8388608), vMin = 1426063360,
           uMax = - 1, vMax = 1426063360\<rparr>"
proof -
  have f3: "float 3 = 3" unfolding float_def by (simp del: of_nat_unat) code_simp
  have fx: "float 50331652 = 50331652" unfolding float_def by (simp del: of_nat_unat) code_simp
  have w: "(3 - 1 - 50331652 div 3 :: u32) = 4278190081" by simp
  have fw: "float 4278190081 = 4278190080"
    unfolding float_def by (simp del: of_nat_unat) code_simp
  have s: "fdiv 1 3 = 11184811 / 33554432" by code_simp
  have m: "glsl_mod 50331652 3 = - 4" by code_simp
  have u0: "fadd (fmul (- 4) (11184811 / 33554432)) (fmul 0 (11184811 / 33554432))
      = - (11184811 / 8388608)" by code_simp
  have u1: "fadd (fmul (- 4) (11184811 / 33554432)) (fmul 1 (11184811 / 33554432)) = - 1"
    by code_simp
  have v0: "fadd (fmul 4278190080 (11184811 / 33554432)) (fmul 0 (11184811 / 33554432))
      = 1426063360" by code_simp
  have v1: "fadd (fmul 4278190080 (11184811 / 33554432)) (fmul 1 (11184811 / 33554432))
      = 1426063360" by code_simp
  have n0: "(3 :: u32) \<noteq> 0" by simp
  show ?thesis
    unfolding rectForIndex_eq [OF n0] tex_u_def tex_v_def w f3 fx fw s m u0 u1 v0 v1 ..
qed

text \<open>
  Claim C10, amended. For every \<open>sideCount\<close> that is a power of two, at most \<open>2 ^ 23\<close>, and
  every 32-bit index, those at or above \<open>sideCount\<^sup>2\<close> included, the horizontal
  coordinates satisfy \<open>0 \<le> uMin\<close> and \<open>uMax = uMin + s \<le> 1\<close>: the conversion of the
  index may round, but \<open>mod\<close> by a power of two is then exact and below \<open>sideCount\<close>.
\<close>

theorem rectForIndex_u_in_unit_interval:
  assumes "unat sideCount = 2 ^ k" and "k \<le> 23"
  shows "\<exists>r. rectForIndex sideCount index = Some r \<and>
             0 \<le> uMin r \<and> uMax r = uMin r + 1 / real (unat sideCount) \<and> uMax r \<le> 1"
proof -
  have n0: "sideCount \<noteq> 0" using assms(1) by auto
  obtain c where c: "c < 2 ^ k"
    and u0: "tex_u index sideCount 0 = real c / 2 ^ k"
    and u1: "tex_u index sideCount 1 = (real c + 1) / 2 ^ k"
    using tex_u_pow2 [OF assms, of index] by auto
  have "real c + 1 \<le> 2 ^ k"
    using c by (metis Suc_leI of_nat_Suc of_nat_le_iff of_nat_numeral of_nat_power add.commute
        of_nat_1 of_nat_add)
  then have "(real c + 1) / 2 ^ k \<le> 1" by (simp add: divide_le_eq_1)
  then show ?thesis
    unfolding rectForIndex_eq [OF n0] u0 u1
    by (simp add: assms(1) add_divide_distrib)
qed

theorem rectForIndex_u_in_unit_interval_witness:
  "unat (4 :: u32) = 2 ^ 2 \<and> (2 :: nat) \<le> 23 \<and>
   (\<exists>r. rectForIndex 4 4294967295 = Some r \<and>
        0 \<le> uMin r \<and> uMax r = uMin r + 1 / real (unat (4 :: u32)) \<and> uMax r \<le> 1)"
  using rectForIndex_u_in_unit_interval [of 4 2 4294967295] by simp

section \<open>The inverse mapping of the specification\<close>






section \<open>Key events\<close>

lemma key_cb_icons_per_side:
  "snd (icon_id (key_cb c key scancode action mods st)) = snd (icon_id st)"
  by (simp add: key_cb_def Let_def)

lemma poll_events_icons_per_side:
  "snd (icon_id (poll_events c evs st)) = snd (icon_id st)"
  by (induction c evs st rule: poll_events.induct) (simp_all add: key_cb_icons_per_side)

lemma unat_minus_one_u32:
  fixes x :: u32
  shows "unat (x - 1) = (unat x + 2 ^ 32 - 1) mod 2 ^ 32"
proof (cases "x = 0")
  case True
  then show ?thesis by (simp add: unat_max_u32)
next
  case False
  then have p: "1 \<le> unat x" by (simp add: unat_gt_0 Suc_le_eq)
  have lt: "unat x < 2 ^ 32" using unsigned_less [of x] by simp
  have "unat (x - 1) = unat x - 1" using p by (simp add: unat_sub word_le_nat_alt)
  moreover have "unat x + 2 ^ 32 - 1 = (unat x - 1) + 1 * 2 ^ 32" using p by simp
  moreover have "((unat x - 1) + 1 * 2 ^ 32) mod 2 ^ 32 = unat x - 1"
    using lt by (simp del: mult_1)
  ultimately show ?thesis by simp
qed

text \<open>
  Claim C8. A press of the RIGHT arrow adds one to the icon index \<open>icon_id[0]\<close> and a
  press of the LEFT arrow subtracts one, with no bound check, in unsigned 32-bit
  arithmetic, that is modulo \<open>2\<^sup>3\<^sup>2\<close>; a LEFT press at index 0 gives \<open>2\<^sup>3\<^sup>2 - 1\<close>.
  The arrow keys are told apart from the digit keys, which are tested first, and from
  each other, by the values of GLFW's constants.
\<close>

theorem key_cb_arrows:
  assumes "\<not> (48 \<le> GLFW_KEY_RIGHT c \<and> GLFW_KEY_RIGHT c \<le> 57)"
    and "\<not> (48 \<le> GLFW_KEY_LEFT c \<and> GLFW_KEY_LEFT c \<le> 57)"
    and "GLFW_KEY_LEFT c \<noteq> GLFW_KEY_RIGHT c"
  shows "fst (icon_id (key_cb c (GLFW_KEY_RIGHT c) scancode (GLFW_PRESS c) mods st))
           = fst (icon_id st) + 1 \<and>
         unat (fst (icon_id (key_cb c (GLFW_KEY_RIGHT c) scancode (GLFW_PRESS c) mods st)))
           = (unat (fst (icon_id st)) + 1) mod 2 ^ 32 \<and>
         fst (icon_id (key_cb c (GLFW_KEY_LEFT c) scancode (GLFW_PRESS c) mods st))
           = fst (icon_id st) - 1 \<and>
         unat (fst (icon_id (key_cb c (GLFW_KEY_LEFT c) scancode (GLFW_PRESS c) mods st)))
           = (unat (fst (icon_id st)) + 2 ^ 32 - 1) mod 2 ^ 32 \<and>
         (fst (icon_id st) = 0 \<longrightarrow>
           unat (fst (icon_id (key_cb c (GLFW_KEY_LEFT c) scancode (GLFW_PRESS c) mods st)))
             = 2 ^ 32 - 1)"
proof -
  have r: "fst (icon_id (key_cb c (GLFW_KEY_RIGHT c) scancode (GLFW_PRESS c) mods st))
           = fst (icon_id st) + 1"
    using assms by (auto simp add: key_cb_def Let_def)
  have l: "fst (icon_id (key_cb c (GLFW_KEY_LEFT c) scancode (GLFW_PRESS c) mods st))
           = fst (icon_id st) - 1"
    using assms by (auto simp add: key_cb_def Let_def)
  have ur: "unat (x + 1) = (unat x + 1) mod 2 ^ 32" for x :: u32
    by (simp add: unat_word_ariths)
  show ?thesis
    unfolding r l using ur unat_minus_one_u32 by (simp add: unat_max_u32)
qed

theorem key_cb_arrows_witness:
  "\<not> (48 \<le> GLFW_KEY_RIGHT glfw3 \<and> GLFW_KEY_RIGHT glfw3 \<le> 57) \<and>
   \<not> (48 \<le> GLFW_KEY_LEFT glfw3 \<and> GLFW_KEY_LEFT glfw3 \<le> 57) \<and>
   GLFW_KEY_LEFT glfw3 \<noteq> GLFW_KEY_RIGHT glfw3 \<and>
   fst (icon_id initial_state) = 0 \<and>
   fst (icon_id (key_cb glfw3 262 0 1 0 initial_state)) = 1 \<and>
   unat (fst (icon_id (key_cb glfw3 263 0 1 0 initial_state))) = 4294967295"
  using key_cb_arrows [of glfw3 0 0 initial_state]
  by (simp add: glfw3_def initial_state_def unat_max_u32)

text \<open>
  Claim C9. No key event, whatever its key, scancode, action and modifiers, changes the
  icons-per-side value \<open>icon_id[1]\<close>.
\<close>

theorem key_cb_keeps_icons_per_side:
  "snd (icon_id (key_cb c key scancode action mods st)) = snd (icon_id st)"
  by (rule key_cb_icons_per_side)

text \<open>
  The layout of the program. \<open>icon_id[1]\<close> is set to 4 by the initialiser and no key
  event changes it, so after any sequence of key events it is 4 and every texture
  coordinate \<open>display\<close> computes is defined.
\<close>

lemma icons_per_side_always_4:
  "snd (icon_id (poll_events c evs initial_state)) = 4 \<and>
   None \<notin> set (display (poll_events c evs initial_state))"
proof -
  have "snd (icon_id (poll_events c evs initial_state)) = 4"
    by (simp add: poll_events_icons_per_side initial_state_def)
  then show ?thesis by (simp add: display_def quad_tex_def vs_tex_coord_def Let_def)
qed

end
